theory Spec2Isabelle
  imports Main "HOL-Library.Word"
begin

section \<open>Error values\<close>

text \<open>
  The package \<^verbatim>\<open>retry\<close> (file \<^verbatim>\<open>pkg/retry/retry.go\<close>) inspects Go \<^verbatim>\<open>error\<close> interface
  values by their dynamic type. The datatype below has one constructor for every shape
  that \<^verbatim>\<open>isRetryable\<close> and \<^verbatim>\<open>errors.Cause\<close> tell apart:

  \<^item> \<open>ErrNil\<close>: the nil interface value;
  \<^item> \<open>Canceled\<close>, \<open>DeadlineExceeded\<close>: \<^verbatim>\<open>context.Canceled\<close>, \<^verbatim>\<open>context.DeadlineExceeded\<close>;
  \<^item> \<open>EOF\<close>: \<^verbatim>\<open>io.EOF\<close>;
  \<^item> \<open>errcode_Error c\<close>: an \<^verbatim>\<open>errcode.Error\<close> value whose field \<^verbatim>\<open>Code\<close> is \<open>c\<close>;
  \<^item> \<open>net_OpError e\<close>, \<open>url_Error e\<close>: a non-nil \<^verbatim>\<open>*net.OpError\<close>, \<^verbatim>\<open>*url.Error\<close> whose
    field \<^verbatim>\<open>Err\<close> is \<open>e\<close>;
  \<^item> \<open>syscall_Errno n\<close>: a \<^verbatim>\<open>syscall.Errno\<close> (a \<^verbatim>\<open>uintptr\<close>, 64 bits here);
  \<^item> \<open>errcode_Errors es\<close>: an \<^verbatim>\<open>errcode.Errors\<close> slice;
  \<^item> \<open>multierror_Error es\<close>: a non-nil \<^verbatim>\<open>*multierror.Error\<close> whose field \<^verbatim>\<open>Errors\<close> is \<open>es\<close>;
  \<^item> \<open>withCause e\<close>: an error with a method \<^verbatim>\<open>Cause() error\<close> that returns \<open>e\<close>
    (what \<^verbatim>\<open>errors.Wrap\<close> and \<^verbatim>\<open>errors.WithStack\<close> of \<^verbatim>\<open>github.com/pkg/errors\<close> build);
  \<^item> \<open>wrapError e\<close>: an error of none of the types above, without \<^verbatim>\<open>Cause\<close>, with a method
    \<^verbatim>\<open>Unwrap() error\<close> that returns \<open>e\<close> (what \<^verbatim>\<open>fmt.Errorf\<close> with \<^verbatim>\<open>%w\<close> builds);
  \<^item> \<open>opaqueError msg\<close>: any other error.

  Error values are finite trees: wrapping chains are acyclic. A nil pointer of type
  \<^verbatim>\<open>*net.OpError\<close>, \<^verbatim>\<open>*url.Error\<close> or \<^verbatim>\<open>*multierror.Error\<close> stored in an \<^verbatim>\<open>error\<close> is not
  represented.
\<close>

text \<open>
  \<^verbatim>\<open>errcode.ErrorCode\<close>: the three codes the classifier names, and every other registered
  code (\<^verbatim>\<open>ErrorCodeUnknown\<close>, \<^verbatim>\<open>ErrorCodeDenied\<close>, \<^verbatim>\<open>ErrorCodeBlobUnknown\<close>, ...), told apart
  by a number.
\<close>

datatype ErrorCode =
    ErrorCodeUnauthorized
  | ErrorCodeNameUnknown
  | ErrorCodeManifestUnknown
  | ErrorCodeOther nat

datatype error =
    ErrNil
  | Canceled
  | DeadlineExceeded
  | EOF
  | errcode_Error ErrorCode
  | net_OpError error
  | url_Error error
  | syscall_Errno "64 word"
  | errcode_Errors "error list"
  | multierror_Error "error list"
  | withCause error
  | wrapError error
  | opaqueError string

text \<open>\<^verbatim>\<open>syscall.ECONNREFUSED\<close> (\<^verbatim>\<open>Errno(0x6f)\<close> on Linux).\<close>

definition ECONNREFUSED :: "64 word" where
  "ECONNREFUSED = 0x6f"

section \<open>The error classifier\<close>

text \<open>
  \<^verbatim>\<open>errors.Cause\<close> of \<^verbatim>\<open>github.com/pkg/errors\<close>:
  \<^verbatim>\<open>
  for err != nil {
      cause, ok := err.(causer)
      if !ok { break }
      err = cause.Cause()
  }
  return err
  \<close>
\<close>

fun Cause :: "error \<Rightarrow> error" where
  "Cause (withCause e) = Cause e"
| "Cause e = e"

lemma size_Cause: "size (Cause e) \<le> size e"
  by (induction e rule: Cause.induct) simp_all

text \<open>
  \<^verbatim>\<open>isRetryable\<close>, lines 41 to 91. The two \<^verbatim>\<open>for i := range\<close> loops return false at the first
  member that is not retryable and true when there is none: \<open>list_all\<close>.
\<close>

function isRetryable :: "error \<Rightarrow> bool" where
  "isRetryable err0 =
     (let err = Cause err0 in
      if err = Canceled \<or> err = DeadlineExceeded then False
      else
        (case err of
           errcode_Error code \<Rightarrow>
             (case code of
                ErrorCodeUnauthorized \<Rightarrow> False
              | ErrorCodeNameUnknown \<Rightarrow> False
              | ErrorCodeManifestUnknown \<Rightarrow> False
              | ErrorCodeOther c \<Rightarrow> True)
         | net_OpError e \<Rightarrow> isRetryable e
         | url_Error e \<Rightarrow> (if e = EOF then True else isRetryable e)
         | syscall_Errno e \<Rightarrow> e \<noteq> ECONNREFUSED
         | errcode_Errors es \<Rightarrow> list_all isRetryable es
         | multierror_Error es \<Rightarrow> list_all isRetryable es
         | wrapError e \<Rightarrow> isRetryable e
         | _ \<Rightarrow> False))"
  by pat_completeness auto

lemma size_Cause_less:
  "c = Cause err0 \<Longrightarrow> size e < size c \<Longrightarrow> size e < size err0"
  using size_Cause [of err0] by simp

lemma size_member_less: "x \<in> set es \<Longrightarrow> size x < Suc (size_list size es)"
  by (induction es) auto

termination isRetryable
proof (relation "measure size", goal_cases)
  case 1
  show ?case by simp
next
  case (2 err0 err e)
  then have "net_OpError e = Cause err0" by simp
  from size_Cause_less [OF this, of e] show ?case by simp
next
  case (3 err0 err e)
  then have "url_Error e = Cause err0" by simp
  from size_Cause_less [OF this, of e] show ?case by simp
next
  case (4 err0 err es x)
  then have "errcode_Errors es = Cause err0" and "x \<in> set es" by simp_all
  from size_Cause_less [OF this(1), of x] size_member_less [OF this(2)]
  show ?case by simp
next
  case (5 err0 err es x)
  then have "multierror_Error es = Cause err0" and "x \<in> set es" by simp_all
  from size_Cause_less [OF this(1), of x] size_member_less [OF this(2)]
  show ?case by simp
next
  case (6 err0 err e)
  then have "wrapError e = Cause err0" by simp
  from size_Cause_less [OF this, of e] show ?case by simp
qed

declare isRetryable.simps [simp del]

section \<open>The backoff loop\<close>

text \<open>
  \<^verbatim>\<open>time.Duration\<close> is an \<^verbatim>\<open>int64\<close> count of nanoseconds, \<^verbatim>\<open>time.Second\<close> is \<open>10^9\<close> of them,
  and \<^verbatim>\<open>int\<close> has 64 bits.
\<close>

type_synonym Duration = "64 word"

definition Second :: Duration where
  "Second = 1000000000"

text \<open>
  \<^verbatim>\<open>int(math.Pow(2, float64(attempt)))\<close>: powers of two up to \<open>2^62\<close> are exact in
  \<^verbatim>\<open>float64\<close> and fit an \<^verbatim>\<open>int\<close>; a negative exponent gives a fraction, truncated to 0. From
  \<open>2^63\<close> on the value does not fit and Go leaves the result of the conversion to the
  implementation: the value taken here is the one of amd64, \<^verbatim>\<open>0x8000000000000000\<close>.
\<close>

definition pow2_int :: "int \<Rightarrow> 64 word" where
  "pow2_int attempt =
     (if attempt < 0 then 0
      else if attempt < 63 then 2 ^ nat attempt
      else 0x8000000000000000)"

text \<open>
  Line 28: \<^verbatim>\<open>delay := time.Duration(int(math.Pow(2, float64(attempt)))) * time.Second\<close>.
  The multiplication is the one of \<^verbatim>\<open>int64\<close>: it wraps.
\<close>

definition delay :: "int \<Rightarrow> Duration" where
  "delay attempt = pow2_int attempt * Second"

record RetryOptions =
  MaxRetry :: int

text \<open>
  What a run does, in order: it calls \<^verbatim>\<open>operation\<close>, it calls \<^verbatim>\<open>logrus.Infof\<close> (with the delay,
  \<^verbatim>\<open>attempt+1\<close> and \<^verbatim>\<open>MaxRetry\<close>), and its \<^verbatim>\<open>select\<close> takes the branch of \<^verbatim>\<open>time.After(delay)\<close> or
  the branch of \<^verbatim>\<open>ctx.Done()\<close>.
\<close>

datatype event =
    Invoked
  | Notice Duration int int
  | TimerFired
  | ContextDone

text \<open>
  A run returns an error value (nil on success), or panics: \<^verbatim>\<open>retryOptions\<close> is a pointer, and
  reading \<^verbatim>\<open>retryOptions.MaxRetry\<close> through a nil pointer panics.
\<close>

datatype outcome = Returned error | Panicked

text \<open>
  The loop of lines 27 to 37, entered with the result \<open>err\<close> of the latest call of
  \<^verbatim>\<open>operation\<close>.

  \<^item> \<^verbatim>\<open>operation\<close> is a closure: it is a function from the state it captures to its result
    and the new state.
  \<^item> \<open>ctx attempt\<close> tells which branch the \<^verbatim>\<open>select\<close> of the iteration \<open>attempt\<close> takes:
    \<open>True\<close> when \<^verbatim>\<open>ctx.Done()\<close> is received, \<open>False\<close> when the timer is.
  \<^item> The condition is evaluated left to right and \<^verbatim>\<open>&&\<close> stops at the first false operand:
    \<^verbatim>\<open>retryOptions.MaxRetry\<close> is read only when \<open>err\<close> is not nil and is retryable.
  \<^item> \<open>attempt\<close> stays below \<open>MaxRetry\<close>, so \<^verbatim>\<open>attempt++\<close> does not overflow.
  \<^item> \<^verbatim>\<open>ctx\<close> and \<^verbatim>\<open>operation\<close> are not nil, every call of \<^verbatim>\<open>operation\<close> returns, and
    \<^verbatim>\<open>operation\<close> does not write to \<^verbatim>\<open>retryOptions\<close>.
\<close>

function retry_loop ::
  "(int \<Rightarrow> bool) \<Rightarrow> ('s \<Rightarrow> error \<times> 's) \<Rightarrow> RetryOptions option \<Rightarrow> int \<Rightarrow> error \<Rightarrow> 's \<Rightarrow>
   event list \<Rightarrow> outcome \<times> 's \<times> event list"
where
  "retry_loop ctx operation retryOptions attempt err s tr =
     (if err \<noteq> ErrNil \<and> isRetryable err then
        (case retryOptions of
           None \<Rightarrow> (Panicked, s, tr)
         | Some ro \<Rightarrow>
             if attempt < MaxRetry ro then
               (let tr1 = tr @ [Notice (delay attempt) (attempt + 1) (MaxRetry ro)] in
                if ctx attempt then (Returned err, s, tr1 @ [ContextDone])
                else
                  retry_loop ctx operation retryOptions (attempt + 1)
                    (fst (operation s)) (snd (operation s)) (tr1 @ [TimerFired, Invoked]))
             else (Returned err, s, tr))
      else (Returned err, s, tr))"
  by pat_completeness auto

termination retry_loop
  by (relation "measure (\<lambda>(ctx, operation, retryOptions, attempt, err, s, tr).
        case retryOptions of None \<Rightarrow> 0 | Some ro \<Rightarrow> nat (MaxRetry ro - attempt))")
     auto

declare retry_loop.simps [simp del]

text \<open>\<^verbatim>\<open>RetryIfNecessary\<close>, lines 25 to 39; \<open>s\<close> is the state of \<^verbatim>\<open>operation\<close> at the call.\<close>

definition RetryIfNecessary ::
  "(int \<Rightarrow> bool) \<Rightarrow> ('s \<Rightarrow> error \<times> 's) \<Rightarrow> RetryOptions option \<Rightarrow> 's \<Rightarrow>
   outcome \<times> 's \<times> event list"
where
  "RetryIfNecessary ctx operation retryOptions s =
     retry_loop ctx operation retryOptions 0 (fst (operation s)) (snd (operation s)) [Invoked]"

subsection \<open>Observations of a run\<close>

definition result :: "outcome \<times> 's \<times> event list \<Rightarrow> outcome" where
  "result r = fst r"

definition final_state :: "outcome \<times> 's \<times> event list \<Rightarrow> 's" where
  "final_state r = fst (snd r)"

definition trace :: "outcome \<times> 's \<times> event list \<Rightarrow> event list" where
  "trace r = snd (snd r)"

fun is_Notice :: "event \<Rightarrow> bool" where
  "is_Notice (Notice d k n) = True"
| "is_Notice e = False"

definition invocations :: "event list \<Rightarrow> nat" where
  "invocations tr = length (filter (\<lambda>e. e = Invoked) tr)"

definition notices :: "event list \<Rightarrow> nat" where
  "notices tr = length (filter is_Notice tr)"

definition waits_completed :: "event list \<Rightarrow> nat" where
  "waits_completed tr = length (filter (\<lambda>e. e = TimerFired) tr)"

definition cancellations :: "event list \<Rightarrow> nat" where
  "cancellations tr = length (filter (\<lambda>e. e = ContextDone) tr)"

text \<open>
  The delays of the notices of a run, in the order in which they are logged: the delay at
  the index \<open>i\<close> is the one computed on line 28 before the retry number \<open>i\<close>, counted from 0.
\<close>

fun notice_delay :: "event \<Rightarrow> Duration list" where
  "notice_delay (Notice d k n) = [d]"
| "notice_delay e = []"

definition notice_delays :: "event list \<Rightarrow> Duration list" where
  "notice_delays tr = concat (map notice_delay tr)"

text \<open>
  The state of \<^verbatim>\<open>operation\<close> after \<open>i\<close> calls from the state \<open>s\<close>, and the result of the call
  number \<open>i\<close> (counted from 0).
\<close>

fun op_state_after :: "('s \<Rightarrow> error \<times> 's) \<Rightarrow> 's \<Rightarrow> nat \<Rightarrow> 's" where
  "op_state_after operation s 0 = s"
| "op_state_after operation s (Suc i) = op_state_after operation (snd (operation s)) i"

definition op_result :: "('s \<Rightarrow> error \<times> 's) \<Rightarrow> 's \<Rightarrow> nat \<Rightarrow> error" where
  "op_result operation s i = fst (operation (op_state_after operation s i))"

subsection \<open>Example inputs\<close>

text \<open>
  Operations and cancellation signals on which the theorems below are evaluated:
  an operation that fails with \<^verbatim>\<open>ECONNRESET\<close> at every call, one that fails with it twice and
  then succeeds (its state counts the calls), one that fails with a wrapped
  \<^verbatim>\<open>unauthorized\<close> error, a context that is never done, a context that is done at the first wait
  and a context that is done during the wait of the iteration \<open>j\<close>.
\<close>

definition op_reset :: "unit \<Rightarrow> error \<times> unit" where
  "op_reset u = (syscall_Errno 0x68, ())"

definition op_flaky :: "nat \<Rightarrow> error \<times> nat" where
  "op_flaky s = (if s < 2 then syscall_Errno 0x68 else ErrNil, Suc s)"

definition op_unauthorized :: "nat \<Rightarrow> error \<times> nat" where
  "op_unauthorized s = (withCause (errcode_Error ErrorCodeUnauthorized), Suc s)"

definition ctx_never :: "int \<Rightarrow> bool" where
  "ctx_never attempt = False"

definition ctx_done :: "int \<Rightarrow> bool" where
  "ctx_done attempt = True"

definition ctx_at :: "int \<Rightarrow> int \<Rightarrow> bool" where
  "ctx_at j attempt = (attempt = j)"

section \<open>Properties of the classifier\<close>

lemma isRetryable_ErrNil: "\<not> isRetryable ErrNil"
  by (simp add: isRetryable.simps)

lemma isRetryable_withCause: "isRetryable (withCause e) = isRetryable e"
  by (simp add: isRetryable.simps [of "withCause e"] isRetryable.simps [of e])

lemma isRetryable_Cause: "isRetryable (Cause e) = isRetryable e"
  by (induction e rule: Cause.induct) (simp_all add: isRetryable_withCause)

lemma isRetryable_errcode_Error:
  "isRetryable (errcode_Error c) =
     (c \<noteq> ErrorCodeUnauthorized \<and> c \<noteq> ErrorCodeNameUnknown \<and> c \<noteq> ErrorCodeManifestUnknown)"
  by (cases c) (simp_all add: isRetryable.simps)

lemma isRetryable_url_Error:
  "isRetryable (url_Error e) = (if e = EOF then True else isRetryable e)"
  by (simp add: isRetryable.simps [of "url_Error e"])

lemma isRetryable_net_OpError: "isRetryable (net_OpError e) = isRetryable e"
  by (simp add: isRetryable.simps [of "net_OpError e"])

lemma isRetryable_wrapError: "isRetryable (wrapError e) = isRetryable e"
  by (simp add: isRetryable.simps [of "wrapError e"])

lemma isRetryable_syscall_Errno: "isRetryable (syscall_Errno n) = (n \<noteq> ECONNREFUSED)"
  by (simp add: isRetryable.simps)

lemma isRetryable_errcode_Errors:
  "isRetryable (errcode_Errors es) = list_all isRetryable es"
  by (simp add: isRetryable.simps [of "errcode_Errors es"])

lemma isRetryable_multierror_Error:
  "isRetryable (multierror_Error es) = list_all isRetryable es"
  by (simp add: isRetryable.simps [of "multierror_Error es"])

lemma isRetryable_flat:
  "\<not> isRetryable Canceled" "\<not> isRetryable DeadlineExceeded" "\<not> isRetryable EOF"
  "\<not> isRetryable (opaqueError m)"
  by (simp_all add: isRetryable.simps)

section \<open>Properties of the delay\<close>

lemma pow2_le: "0 \<le> i \<Longrightarrow> i \<le> 33 \<Longrightarrow> (2::int) ^ nat i \<le> 2 ^ 33"
  by (rule power_increasing) auto

lemma sint_Second: "sint Second = 1000000000"
  by (simp add: Second_def)

lemma sint_delay:
  assumes "0 \<le> i" and "i \<le> 33"
  shows "sint (delay i) = 2 ^ nat i * sint Second"
proof -
  let ?x = "(2::int) ^ nat i * 1000000000"
  have le: "(2::int) ^ nat i \<le> 2 ^ 33" using assms by (rule pow2_le)
  have nonneg: "0 \<le> ?x" by simp
  have "?x \<le> 2 ^ 33 * 1000000000" using le by simp
  also have "\<dots> < (2::int) ^ 63" by simp
  finally have lt: "?x < 2 ^ 63" .
  have "delay i = (word_of_int ?x :: 64 word)"
    using assms by (simp add: delay_def pow2_int_def Second_def)
  then have "sint (delay i) = sint (word_of_int ?x :: 64 word)"
    by (simp only:)
  also have "\<dots> = signed_take_bit (LENGTH(64) - 1) ?x"
    by (rule sint_sbintrunc')
  also have "\<dots> = signed_take_bit (63::nat) ?x"
    by simp
  also have "\<dots> = ?x"
  proof (rule signed_take_bit_int_eq_self)
    have "- ((2::int) ^ 63) \<le> 0" by simp
    also note nonneg
    finally show "- (2 ^ 63) \<le> ?x" .
    show "?x < 2 ^ 63" by (rule lt)
  qed
  finally show ?thesis by (simp add: sint_Second)
qed

section \<open>Properties of the loop\<close>

lemma retry_loop_stop:
  "err = ErrNil \<or> \<not> isRetryable err \<Longrightarrow>
   retry_loop ctx operation retryOptions attempt err s tr = (Returned err, s, tr)"
  by (auto simp: retry_loop.simps [of ctx operation retryOptions attempt err s tr])

lemma retry_loop_exhausted:
  "\<not> attempt < MaxRetry ro \<Longrightarrow>
   retry_loop ctx operation (Some ro) attempt err s tr = (Returned err, s, tr)"
  by (simp add: retry_loop.simps [of ctx operation "Some ro" attempt err s tr])

lemma retry_loop_nil_options:
  "isRetryable err \<Longrightarrow> retry_loop ctx operation None attempt err s tr = (Panicked, s, tr)"
  using isRetryable_ErrNil
  by (auto simp: retry_loop.simps [of ctx operation None attempt err s tr])

lemma retry_loop_cancel:
  "isRetryable err \<Longrightarrow> attempt < MaxRetry ro \<Longrightarrow> ctx attempt \<Longrightarrow>
   retry_loop ctx operation (Some ro) attempt err s tr =
     (Returned err, s, tr @ [Notice (delay attempt) (attempt + 1) (MaxRetry ro), ContextDone])"
  using isRetryable_ErrNil
  by (auto simp: retry_loop.simps [of ctx operation "Some ro" attempt err s tr])

lemma retry_loop_step:
  "isRetryable err \<Longrightarrow> attempt < MaxRetry ro \<Longrightarrow> \<not> ctx attempt \<Longrightarrow>
   retry_loop ctx operation (Some ro) attempt err s tr =
     retry_loop ctx operation (Some ro) (attempt + 1) (fst (operation s)) (snd (operation s))
       (tr @ [Notice (delay attempt) (attempt + 1) (MaxRetry ro), TimerFired, Invoked])"
  using isRetryable_ErrNil
  by (auto simp: retry_loop.simps [of ctx operation "Some ro" attempt err s tr])

lemma op_result_Suc:
  "op_result operation s (Suc i) = op_result operation (snd (operation s)) i"
  by (simp add: op_result_def)

lemma op_result_0: "op_result operation s 0 = fst (operation s)"
  by (simp add: op_result_def)

lemma counts_append:
  "invocations (tr @ tr') = invocations tr + invocations tr'"
  "notices (tr @ tr') = notices tr + notices tr'"
  "waits_completed (tr @ tr') = waits_completed tr + waits_completed tr'"
  "cancellations (tr @ tr') = cancellations tr + cancellations tr'"
  by (simp_all add: invocations_def notices_def waits_completed_def cancellations_def)

lemma counts_retry:
  "invocations [Notice d k n, TimerFired, Invoked] = 1"
  "notices [Notice d k n, TimerFired, Invoked] = 1"
  "waits_completed [Notice d k n, TimerFired, Invoked] = 1"
  "cancellations [Notice d k n, TimerFired, Invoked] = 0"
  by (simp_all add: invocations_def notices_def waits_completed_def cancellations_def)

lemma counts_cancel:
  "invocations [Notice d k n, ContextDone] = 0"
  "notices [Notice d k n, ContextDone] = 1"
  "waits_completed [Notice d k n, ContextDone] = 0"
  "cancellations [Notice d k n, ContextDone] = 1"
  by (simp_all add: invocations_def notices_def waits_completed_def cancellations_def)

lemma counts_first:
  "invocations [Invoked] = 1" "notices [Invoked] = 0"
  "waits_completed [Invoked] = 0" "cancellations [Invoked] = 0"
  by (simp_all add: invocations_def notices_def waits_completed_def cancellations_def)

lemma retry_loop_run:
  assumes "\<forall>i<k. isRetryable (op_result operation s i)"
    and "attempt + int k \<le> MaxRetry ro"
    and "\<forall>i<k. \<not> ctx (attempt + int i)"
  shows "\<exists>tr'. retry_loop ctx operation (Some ro) attempt
                 (fst (operation s)) (snd (operation s)) tr =
               retry_loop ctx operation (Some ro) (attempt + int k)
                 (op_result operation s k) (op_state_after operation s (Suc k)) tr' \<and>
               invocations tr' = invocations tr + k \<and>
               notices tr' = notices tr + k \<and>
               waits_completed tr' = waits_completed tr + k \<and>
               cancellations tr' = cancellations tr"
  using assms
proof (induction k arbitrary: attempt s tr)
  case 0
  show ?case by (rule exI [of _ tr]) (simp add: op_result_0)
next
  case (Suc k)
  let ?s1 = "snd (operation s)"
  let ?tr1 = "tr @ [Notice (delay attempt) (attempt + 1) (MaxRetry ro), TimerFired, Invoked]"
  from Suc.prems(1) have r0: "isRetryable (fst (operation s))"
    by (auto simp: op_result_0 [symmetric])
  from Suc.prems(2) have lt: "attempt < MaxRetry ro" by simp
  from Suc.prems(3) have nc: "\<not> ctx attempt" by force
  have step: "retry_loop ctx operation (Some ro) attempt (fst (operation s)) ?s1 tr =
      retry_loop ctx operation (Some ro) (attempt + 1) (fst (operation ?s1)) (snd (operation ?s1)) ?tr1"
    using r0 lt nc by (rule retry_loop_step [where ctx = ctx])
  have p1: "\<forall>i<k. isRetryable (op_result operation ?s1 i)"
    using Suc.prems(1) by (auto simp: op_result_Suc [symmetric])
  have p2: "attempt + 1 + int k \<le> MaxRetry ro" using Suc.prems(2) by simp
  have p3: "\<forall>i<k. \<not> ctx (attempt + 1 + int i)"
  proof (intro allI impI)
    fix i assume "i < k"
    then have "\<not> ctx (attempt + int (Suc i))" using Suc.prems(3) by blast
    then show "\<not> ctx (attempt + 1 + int i)" by (simp add: add.assoc)
  qed
  from Suc.IH [OF p1 p2 p3, of ?tr1] obtain tr' where
    run: "retry_loop ctx operation (Some ro) (attempt + 1)
            (fst (operation ?s1)) (snd (operation ?s1)) ?tr1 =
          retry_loop ctx operation (Some ro) (attempt + 1 + int k)
            (op_result operation ?s1 k) (op_state_after operation ?s1 (Suc k)) tr'"
    and c: "invocations tr' = invocations ?tr1 + k" "notices tr' = notices ?tr1 + k"
      "waits_completed tr' = waits_completed ?tr1 + k" "cancellations tr' = cancellations ?tr1"
    by blast
  have "retry_loop ctx operation (Some ro) attempt (fst (operation s)) ?s1 tr =
        retry_loop ctx operation (Some ro) (attempt + int (Suc k))
          (op_result operation s (Suc k)) (op_state_after operation s (Suc (Suc k))) tr'"
    using step run by (simp add: op_result_Suc ac_simps)
  moreover have "invocations tr' = invocations tr + Suc k" "notices tr' = notices tr + Suc k"
    "waits_completed tr' = waits_completed tr + Suc k" "cancellations tr' = cancellations tr"
    using c by (simp_all add: counts_append counts_retry)
  ultimately show ?case by blast
qed

lemma RetryIfNecessary_run:
  assumes "\<forall>i<k. isRetryable (op_result operation s i)"
    and "int k \<le> MaxRetry ro"
    and "\<forall>i<k. \<not> ctx (int i)"
  shows "\<exists>tr'. RetryIfNecessary ctx operation (Some ro) s =
               retry_loop ctx operation (Some ro) (int k)
                 (op_result operation s k) (op_state_after operation s (Suc k)) tr' \<and>
               invocations tr' = Suc k \<and> notices tr' = k \<and>
               waits_completed tr' = k \<and> cancellations tr' = 0"
  using retry_loop_run [of k operation s 0 ro ctx "[Invoked]"] assms
  by (simp add: RetryIfNecessary_def counts_first)

lemma retry_loop_counts:
  "retry_loop ctx operation retryOptions attempt err s tr = (out, s', tr') \<Longrightarrow>
   notices tr' + invocations tr + cancellations tr =
     notices tr + invocations tr' + cancellations tr' \<and>
   waits_completed tr' + invocations tr = waits_completed tr + invocations tr' \<and>
   invocations tr \<le> invocations tr' \<and>
   cancellations tr \<le> cancellations tr' \<and> cancellations tr' \<le> cancellations tr + 1"
proof (induction ctx operation retryOptions attempt err s tr arbitrary: out s' tr'
    rule: retry_loop.induct)
  case (1 ctx operation retryOptions attempt err s tr)
  show ?case
  proof (cases "err \<noteq> ErrNil \<and> isRetryable err")
    case False
    then have "retry_loop ctx operation retryOptions attempt err s tr = (Returned err, s, tr)"
      by (intro retry_loop_stop) auto
    with "1.prems" show ?thesis by simp
  next
    case retry: True
    show ?thesis
    proof (cases retryOptions)
      case None
      with retry "1.prems" show ?thesis by (simp add: retry_loop_nil_options)
    next
      case (Some ro)
      show ?thesis
      proof (cases "attempt < MaxRetry ro")
        case False
        with Some "1.prems" show ?thesis by (simp add: retry_loop_exhausted)
      next
        case lt: True
        let ?n = "Notice (delay attempt) (attempt + 1) (MaxRetry ro)"
        show ?thesis
        proof (cases "ctx attempt")
          case True
          with retry lt Some "1.prems" have "tr' = tr @ [?n, ContextDone]"
            by (simp add: retry_loop_cancel)
          then show ?thesis by (simp add: counts_append counts_cancel)
        next
          case False
          with retry lt Some "1.prems"
          have "retry_loop ctx operation retryOptions (attempt + 1) (fst (operation s))
                  (snd (operation s)) ((tr @ [?n]) @ [TimerFired, Invoked]) = (out, s', tr')"
            by (simp add: retry_loop_step)
          from "1.IH" [OF retry Some lt refl False this]
          show ?thesis by (simp add: counts_append counts_retry counts_first
              invocations_def notices_def waits_completed_def cancellations_def)
        qed
      qed
    qed
  qed
qed

lemma retry_loop_last:
  "retry_loop ctx operation retryOptions attempt err s tr = (out, s', tr') \<Longrightarrow>
   tr \<noteq> [] \<Longrightarrow> last tr = Invoked \<Longrightarrow>
   tr' \<noteq> [] \<and> last tr' = (if cancellations tr' = cancellations tr then Invoked else ContextDone)"
proof (induction ctx operation retryOptions attempt err s tr arbitrary: out s' tr'
    rule: retry_loop.induct)
  case (1 ctx operation retryOptions attempt err s tr)
  show ?case
  proof (cases "err \<noteq> ErrNil \<and> isRetryable err")
    case False
    then have "retry_loop ctx operation retryOptions attempt err s tr = (Returned err, s, tr)"
      by (intro retry_loop_stop) auto
    with "1.prems" show ?thesis by simp
  next
    case retry: True
    show ?thesis
    proof (cases retryOptions)
      case None
      with retry "1.prems" show ?thesis by (simp add: retry_loop_nil_options)
    next
      case (Some ro)
      show ?thesis
      proof (cases "attempt < MaxRetry ro")
        case False
        with Some "1.prems" show ?thesis by (simp add: retry_loop_exhausted)
      next
        case lt: True
        let ?n = "Notice (delay attempt) (attempt + 1) (MaxRetry ro)"
        show ?thesis
        proof (cases "ctx attempt")
          case True
          with retry lt Some "1.prems" have "tr' = tr @ [?n, ContextDone]"
            by (simp add: retry_loop_cancel)
          then show ?thesis by (simp add: counts_append counts_cancel)
        next
          case False
          let ?tr1 = "(tr @ [?n]) @ [TimerFired, Invoked]"
          from False retry lt Some "1.prems"
          have run: "retry_loop ctx operation retryOptions (attempt + 1) (fst (operation s))
                  (snd (operation s)) ?tr1 = (out, s', tr')"
            by (simp add: retry_loop_step)
          have c: "cancellations ?tr1 = cancellations tr"
            by (simp add: cancellations_def)
          from "1.IH" [OF retry Some lt refl False run] c
          show ?thesis by simp
        qed
      qed
    qed
  qed
qed

lemma notice_delays_append:
  "notice_delays (tr @ tr') = notice_delays tr @ notice_delays tr'"
  by (simp add: notice_delays_def)

lemma length_notice_delays: "length (notice_delays tr) = notices tr"
  by (induction tr rule: rev_induct)
    (auto simp: notice_delays_def notices_def elim: is_Notice.elims notice_delay.elims)

lemma retry_loop_notice_delays:
  "retry_loop ctx operation retryOptions attempt err s tr = (out, s', tr') \<Longrightarrow>
   notices tr \<le> notices tr' \<and>
   notice_delays tr' =
     notice_delays tr @ map (\<lambda>i. delay (attempt + int i)) [0..<notices tr' - notices tr]"
proof (induction ctx operation retryOptions attempt err s tr arbitrary: out s' tr'
    rule: retry_loop.induct)
  case (1 ctx operation retryOptions attempt err s tr)
  show ?case
  proof (cases "err \<noteq> ErrNil \<and> isRetryable err")
    case False
    then have "retry_loop ctx operation retryOptions attempt err s tr = (Returned err, s, tr)"
      by (intro retry_loop_stop) auto
    with "1.prems" show ?thesis by simp
  next
    case retry: True
    show ?thesis
    proof (cases retryOptions)
      case None
      with retry "1.prems" show ?thesis by (simp add: retry_loop_nil_options)
    next
      case (Some ro)
      show ?thesis
      proof (cases "attempt < MaxRetry ro")
        case False
        with Some "1.prems" show ?thesis by (simp add: retry_loop_exhausted)
      next
        case lt: True
        let ?n = "Notice (delay attempt) (attempt + 1) (MaxRetry ro)"
        show ?thesis
        proof (cases "ctx attempt")
          case True
          with retry lt Some "1.prems" have "tr' = tr @ [?n, ContextDone]"
            by (simp add: retry_loop_cancel)
          then show ?thesis
            by (simp add: counts_append counts_cancel notice_delays_append notice_delays_def)
        next
          case False
          let ?tr1 = "(tr @ [?n]) @ [TimerFired, Invoked]"
          from False retry lt Some "1.prems"
          have run: "retry_loop ctx operation retryOptions (attempt + 1) (fst (operation s))
                  (snd (operation s)) ?tr1 = (out, s', tr')"
            by (simp add: retry_loop_step)
          have n1: "notices ?tr1 = Suc (notices tr)"
            by (simp add: notices_def)
          have d1: "notice_delays ?tr1 = notice_delays tr @ [delay attempt]"
            by (simp add: notice_delays_def)
          from "1.IH" [OF retry Some lt refl False run]
          have le: "notices ?tr1 \<le> notices tr'"
            and eq: "notice_delays tr' = notice_delays ?tr1 @
              map (\<lambda>i. delay (attempt + 1 + int i)) [0..<notices tr' - notices ?tr1]"
            by simp_all
          from le n1 have m: "notices tr' - notices tr = Suc (notices tr' - notices ?tr1)"
            by simp
          have "notice_delays tr' = notice_delays tr @
              map (\<lambda>i. delay (attempt + int i)) [0..<notices tr' - notices tr]"
            unfolding m map_upt_Suc using eq unfolding d1 by (simp add: ac_simps)
          with le n1 show ?thesis by simp
        qed
      qed
    qed
  qed
qed

lemma RetryIfNecessary_notice_delays:
  "notice_delays (trace (RetryIfNecessary ctx operation retryOptions s)) =
     map (\<lambda>i. delay (int i)) [0..<notices (trace (RetryIfNecessary ctx operation retryOptions s))]"
proof -
  obtain out s' tr' where
    r: "RetryIfNecessary ctx operation retryOptions s = (out, s', tr')"
    by (cases "RetryIfNecessary ctx operation retryOptions s") auto
  then have loop: "retry_loop ctx operation retryOptions 0 (fst (operation s))
      (snd (operation s)) [Invoked] = (out, s', tr')"
    by (simp add: RetryIfNecessary_def)
  from retry_loop_notice_delays [OF loop]
  show ?thesis unfolding r by (simp add: trace_def counts_first notice_delays_def)
qed

lemma op_reset_notices:
  assumes "0 \<le> n"
  shows "notices (trace (RetryIfNecessary ctx_never op_reset (Some \<lparr>MaxRetry = n\<rparr>) ())) = nat n"
proof -
  let ?ro = "\<lparr>MaxRetry = n\<rparr>"
  have "\<forall>i<nat n. isRetryable (op_result op_reset () i)"
    by (simp add: op_result_def op_reset_def isRetryable_syscall_Errno ECONNREFUSED_def)
  moreover have "int (nat n) \<le> MaxRetry ?ro" using assms by simp
  moreover have "\<forall>i<nat n. \<not> ctx_never (int i)" by (simp add: ctx_never_def)
  ultimately obtain tr' where
    run: "RetryIfNecessary ctx_never op_reset (Some ?ro) () =
            retry_loop ctx_never op_reset (Some ?ro) (int (nat n))
              (op_result op_reset () (nat n)) (op_state_after op_reset () (Suc (nat n))) tr'"
    and nt: "notices tr' = nat n"
    using RetryIfNecessary_run [of "nat n" op_reset "()" ?ro ctx_never] by blast
  have "\<not> int (nat n) < MaxRetry ?ro" using assms by simp
  then have "RetryIfNecessary ctx_never op_reset (Some ?ro) () =
      (Returned (op_result op_reset () (nat n)), op_state_after op_reset () (Suc (nat n)), tr')"
    unfolding run by (rule retry_loop_exhausted)
  with nt show ?thesis by (simp add: trace_def)
qed

lemma all_less_2: "(\<forall>i<2::nat. P i) \<longleftrightarrow> P 0 \<and> P 1"
  by (auto simp: less_2_cases_iff)

section \<open>The claims about the classifier\<close>

text \<open>
  Claim C5. An error whose root cause, after \<^verbatim>\<open>errors.Cause\<close> has followed the causal
  wrapping, is a coded error is retryable exactly when its code is none of
  \<^verbatim>\<open>unauthorized\<close>, \<^verbatim>\<open>name unknown\<close> and \<^verbatim>\<open>manifest unknown\<close>: not retryable for these three,
  retryable for every other code.
\<close>

theorem isRetryable_coded_root_cause:
  assumes "Cause e = errcode_Error c"
  shows "isRetryable e =
    (c \<noteq> ErrorCodeUnauthorized \<and> c \<noteq> ErrorCodeNameUnknown \<and> c \<noteq> ErrorCodeManifestUnknown)"
proof -
  have "isRetryable e = isRetryable (Cause e)" by (simp add: isRetryable_Cause)
  also have "\<dots> = isRetryable (errcode_Error c)" by (simp only: assms)
  finally show ?thesis by (simp only: isRetryable_errcode_Error)
qed

text \<open>C5 at a twice wrapped \<^verbatim>\<open>manifest unknown\<close> and at a wrapped other code.\<close>

theorem isRetryable_coded_root_cause_witness:
  "Cause (withCause (withCause (errcode_Error ErrorCodeManifestUnknown))) =
     errcode_Error ErrorCodeManifestUnknown \<and>
   \<not> isRetryable (withCause (withCause (errcode_Error ErrorCodeManifestUnknown))) \<and>
   Cause (withCause (errcode_Error (ErrorCodeOther 7))) = errcode_Error (ErrorCodeOther 7) \<and>
   isRetryable (withCause (errcode_Error (ErrorCodeOther 7)))"
  using isRetryable_coded_root_cause [of "withCause (withCause (errcode_Error ErrorCodeManifestUnknown))"
      ErrorCodeManifestUnknown]
    isRetryable_coded_root_cause [of "withCause (errcode_Error (ErrorCodeOther 7))" "ErrorCodeOther 7"]
  by simp

text \<open>
  Claim C6. An aggregate error, in either representation (\<^verbatim>\<open>errcode.Errors\<close> and
  \<^verbatim>\<open>*multierror.Error\<close>), is retryable if and only if every member is retryable; a member
  that is not retryable, at any position \<open>i\<close>, makes the aggregate not retryable.
\<close>

theorem isRetryable_aggregate_iff:
  "(isRetryable (errcode_Errors es) \<longleftrightarrow> (\<forall>e\<in>set es. isRetryable e)) \<and>
   (isRetryable (multierror_Error es) \<longleftrightarrow> (\<forall>e\<in>set es. isRetryable e)) \<and>
   (i < length es \<and> \<not> isRetryable (es ! i) \<longrightarrow>
      \<not> isRetryable (errcode_Errors es) \<and> \<not> isRetryable (multierror_Error es))"
proof -
  have "\<not> list_all isRetryable es" if "i < length es" and "\<not> isRetryable (es ! i)"
    using that by (auto simp: list_all_iff)
  then show ?thesis
    by (auto simp: isRetryable_errcode_Errors isRetryable_multierror_Error list_all_iff)
qed

text \<open>
  C6 at four aggregates: a member that is not retryable in the middle and in front, and
  all members retryable.
\<close>

theorem isRetryable_aggregate_iff_witness:
  "(1::nat) < length [syscall_Errno 0x68, errcode_Error ErrorCodeUnauthorized, url_Error EOF] \<and>
   \<not> isRetryable ([syscall_Errno 0x68, errcode_Error ErrorCodeUnauthorized, url_Error EOF] ! 1) \<and>
   \<not> isRetryable (errcode_Errors [syscall_Errno 0x68, errcode_Error ErrorCodeUnauthorized,
       url_Error EOF]) \<and>
   \<not> isRetryable (multierror_Error [opaqueError ''boom'', syscall_Errno 0x68]) \<and>
   isRetryable (errcode_Errors [syscall_Errno 0x68, url_Error EOF]) \<and>
   isRetryable (multierror_Error [errcode_Error (ErrorCodeOther 0), syscall_Errno 0x68])"
  using isRetryable_aggregate_iff
      [of "[syscall_Errno 0x68, errcode_Error ErrorCodeUnauthorized, url_Error EOF]" 1]
    isRetryable_aggregate_iff [of "[opaqueError ''boom'', syscall_Errno 0x68]" 0]
    isRetryable_aggregate_iff [of "[syscall_Errno 0x68, url_Error EOF]" 0]
    isRetryable_aggregate_iff [of "[errcode_Error (ErrorCodeOther 0), syscall_Errno 0x68]" 0]
  by (simp add: isRetryable_syscall_Errno isRetryable_errcode_Error isRetryable_url_Error
      isRetryable_flat ECONNREFUSED_def)

text \<open>
  Claim C7. A \<^verbatim>\<open>*url.Error\<close> whose inner error is exactly \<^verbatim>\<open>io.EOF\<close> is retryable, although
  \<^verbatim>\<open>io.EOF\<close> itself is not (the classifier does not recurse there); with any other inner error
  the answer is the classification of the inner error.
\<close>

theorem isRetryable_url_Error_EOF:
  "isRetryable (url_Error EOF) \<and> \<not> isRetryable EOF \<and>
   (e \<noteq> EOF \<longrightarrow> isRetryable (url_Error e) = isRetryable e)"
  by (simp add: isRetryable_url_Error isRetryable_flat)

text \<open>C7 at a wrapped \<^verbatim>\<open>io.EOF\<close>, which is not \<^verbatim>\<open>io.EOF\<close> itself, and at \<^verbatim>\<open>ECONNRESET\<close>.\<close>

theorem isRetryable_url_Error_EOF_witness:
  "isRetryable (url_Error EOF) \<and> \<not> isRetryable EOF \<and>
   withCause EOF \<noteq> EOF \<and> \<not> isRetryable (url_Error (withCause EOF)) \<and>
   syscall_Errno 0x68 \<noteq> EOF \<and> isRetryable (url_Error (syscall_Errno 0x68))"
  using isRetryable_url_Error_EOF [of "withCause EOF"] isRetryable_url_Error_EOF [of "syscall_Errno 0x68"]
  by (simp add: isRetryable_withCause isRetryable_syscall_Errno ECONNREFUSED_def)

section \<open>The claim about the delay\<close>

text \<open>
  Claim C8, amended. In every run of \<^verbatim>\<open>RetryIfNecessary\<close>, for every attempt index \<open>i\<close> from 0
  (the first retry) to 33, the delay computed before the retry number \<open>i\<close>, which is the one
  its notice announces, is \<open>delay i\<close> and equals \<open>2^i\<close> seconds: the delays before successive
  retries are 1, 2, 4, 8, ... seconds. (The claim as stated, for every index, fails from 34
  on, where \<open>2^i * 10^9\<close> nanoseconds do not fit the 64 bits of a \<^verbatim>\<open>time.Duration\<close>.)
\<close>

theorem delay_exponential:
  assumes "i < notices (trace (RetryIfNecessary ctx operation retryOptions s))"
    and "i \<le> 33"
  shows "length (notice_delays (trace (RetryIfNecessary ctx operation retryOptions s))) =
           notices (trace (RetryIfNecessary ctx operation retryOptions s)) \<and>
         notice_delays (trace (RetryIfNecessary ctx operation retryOptions s)) ! i =
           delay (int i) \<and>
         sint (notice_delays (trace (RetryIfNecessary ctx operation retryOptions s)) ! i) =
           2 ^ i * sint Second"
proof -
  let ?tr = "trace (RetryIfNecessary ctx operation retryOptions s)"
  have "notice_delays ?tr ! i = map (\<lambda>i. delay (int i)) [0..<notices ?tr] ! i"
    by (simp only: RetryIfNecessary_notice_delays [symmetric])
  also have "\<dots> = delay (int i)" using assms(1) by simp
  finally have d: "notice_delays ?tr ! i = delay (int i)" .
  have "sint (delay (int i)) = 2 ^ nat (int i) * sint Second"
    using assms(2) by (intro sint_delay) simp_all
  with d show ?thesis by (simp add: length_notice_delays)
qed

text \<open>
  C8 at a run of four retries (the operation fails every time, \<open>MaxRetry = 4\<close>): the delays
  are 1, 2, 4 and 8 seconds.
\<close>

theorem delay_exponential_witness:
  "(3::nat) < notices (trace (RetryIfNecessary ctx_never op_reset (Some \<lparr>MaxRetry = 4\<rparr>) ())) \<and>
   (3::nat) \<le> 33 \<and>
   sint (notice_delays (trace (RetryIfNecessary ctx_never op_reset (Some \<lparr>MaxRetry = 4\<rparr>) ())) ! 0)
     = 1000000000 \<and>
   sint (notice_delays (trace (RetryIfNecessary ctx_never op_reset (Some \<lparr>MaxRetry = 4\<rparr>) ())) ! 1)
     = 2000000000 \<and>
   sint (notice_delays (trace (RetryIfNecessary ctx_never op_reset (Some \<lparr>MaxRetry = 4\<rparr>) ())) ! 2)
     = 4000000000 \<and>
   sint (notice_delays (trace (RetryIfNecessary ctx_never op_reset (Some \<lparr>MaxRetry = 4\<rparr>) ())) ! 3)
     = 8000000000"
proof -
  let ?tr = "trace (RetryIfNecessary ctx_never op_reset (Some \<lparr>MaxRetry = 4\<rparr>) ())"
  have n: "notices ?tr = 4" using op_reset_notices [of 4] by simp
  have h: "0 < notices ?tr" "1 < notices ?tr" "2 < notices ?tr" "3 < notices ?tr"
    using n by simp_all
  from delay_exponential [OF h(1), THEN conjunct2, THEN conjunct2] delay_exponential [OF h(2), THEN conjunct2, THEN conjunct2]
    delay_exponential [OF h(3), THEN conjunct2, THEN conjunct2] delay_exponential [OF h(4), THEN conjunct2, THEN conjunct2] h
  show ?thesis by (simp add: sint_Second)
qed

text \<open>
  The claim C8 as stated fails at the attempt 34 of a run of 35 retries: the product wraps
  to a negative \<^verbatim>\<open>Duration\<close>, which is not \<open>2^34\<close> seconds.
\<close>

theorem delay_wraps_at_34_counterexample:
  "(34::nat) < notices (trace (RetryIfNecessary ctx_never op_reset (Some \<lparr>MaxRetry = 35\<rparr>) ())) \<and>
   sint (notice_delays (trace (RetryIfNecessary ctx_never op_reset (Some \<lparr>MaxRetry = 35\<rparr>) ()))
     ! 34) \<noteq> 2 ^ 34 * sint Second"
proof -
  let ?tr = "trace (RetryIfNecessary ctx_never op_reset (Some \<lparr>MaxRetry = 35\<rparr>) ())"
  have n: "notices ?tr = 35" using op_reset_notices [of 35] by simp
  have "notice_delays ?tr ! 34 = map (\<lambda>i. delay (int i)) [0..<notices ?tr] ! 34"
    by (simp only: RetryIfNecessary_notice_delays [symmetric])
  also have "\<dots> = delay 34" unfolding n by simp
  finally have "notice_delays ?tr ! 34 = delay 34" .
  moreover have "sint (delay 34) \<noteq> 2 ^ 34 * sint Second"
    by (simp add: delay_def pow2_int_def Second_def)
  ultimately show ?thesis using n by simp
qed

section \<open>The claims about the loop\<close>

text \<open>
  Claim C1, amended. When every call of the operation fails with a retryable error,
  \<open>MaxRetry = n\<close> is not negative and the cancellation signal fires during none of the \<open>n\<close>
  waits, \<^verbatim>\<open>RetryIfNecessary\<close> calls the operation exactly \<open>n + 1\<close> times and returns the
  failure of the last call. (The claim as stated leaves the cancellation signal free.)
\<close>

theorem RetryIfNecessary_always_retryable:
  assumes "\<forall>i. isRetryable (op_result operation s i)"
    and "0 \<le> n"
    and "\<forall>i<nat n. \<not> ctx (int i)"
  shows "result (RetryIfNecessary ctx operation (Some \<lparr>MaxRetry = n\<rparr>) s) =
           Returned (op_result operation s (nat n)) \<and>
         invocations (trace (RetryIfNecessary ctx operation (Some \<lparr>MaxRetry = n\<rparr>) s)) =
           nat n + 1 \<and>
         final_state (RetryIfNecessary ctx operation (Some \<lparr>MaxRetry = n\<rparr>) s) =
           op_state_after operation s (nat n + 1)"
proof -
  let ?ro = "\<lparr>MaxRetry = n\<rparr>"
  have "\<forall>i<nat n. isRetryable (op_result operation s i)" using assms(1) by simp
  moreover have "int (nat n) \<le> MaxRetry ?ro" using assms(2) by simp
  ultimately obtain tr' where
    run: "RetryIfNecessary ctx operation (Some ?ro) s =
            retry_loop ctx operation (Some ?ro) (int (nat n))
              (op_result operation s (nat n)) (op_state_after operation s (Suc (nat n))) tr'"
    and inv: "invocations tr' = Suc (nat n)"
    using RetryIfNecessary_run [of "nat n" operation s ?ro ctx] assms(3) by blast
  have "\<not> int (nat n) < MaxRetry ?ro" using assms(2) by simp
  then have "RetryIfNecessary ctx operation (Some ?ro) s =
      (Returned (op_result operation s (nat n)), op_state_after operation s (Suc (nat n)), tr')"
    unfolding run by (rule retry_loop_exhausted)
  with inv show ?thesis by (simp add: result_def trace_def final_state_def)
qed

text \<open>C1 at \<open>MaxRetry = 2\<close>: three calls.\<close>

theorem RetryIfNecessary_always_retryable_witness:
  "(\<forall>i. isRetryable (op_result op_reset () i)) \<and> (0::int) \<le> 2 \<and>
   \<not> ctx_never (int 0) \<and> \<not> ctx_never (int 1) \<and>
   result (RetryIfNecessary ctx_never op_reset (Some \<lparr>MaxRetry = 2\<rparr>) ()) =
     Returned (syscall_Errno 0x68) \<and>
   invocations (trace (RetryIfNecessary ctx_never op_reset (Some \<lparr>MaxRetry = 2\<rparr>) ())) = 3"
proof -
  have h1: "\<forall>i. isRetryable (op_result op_reset () i)"
    by (simp add: op_result_def op_reset_def isRetryable_syscall_Errno ECONNREFUSED_def)
  have h2: "(0::int) \<le> 2" by simp
  have h3: "\<forall>i<nat 2. \<not> ctx_never (int i)" by (simp add: ctx_never_def)
  have c: "\<not> ctx_never (int 0)" "\<not> ctx_never (int 1)" by (simp_all add: ctx_never_def)
  from RetryIfNecessary_always_retryable [OF h1 h2 h3] h1 c show ?thesis
    by (simp add: op_result_def op_reset_def)
qed

text \<open>
  The claim C1 as stated fails when the context is done at the first wait: with
  \<open>MaxRetry = 1\<close> the operation is called once, not twice.
\<close>

theorem RetryIfNecessary_cancelled_early_counterexample:
  "isRetryable (fst (op_reset ())) \<and> (0::int) \<le> 1 \<and>
   invocations (trace (RetryIfNecessary ctx_done op_reset (Some \<lparr>MaxRetry = 1\<rparr>) ())) \<noteq> nat 1 + 1"
  by (simp add: RetryIfNecessary_def retry_loop_cancel op_reset_def ctx_done_def
      isRetryable_syscall_Errno ECONNREFUSED_def trace_def invocations_def)

text \<open>
  Claim C2. When the first \<open>k\<close> calls of the operation fail with retryable errors and the
  next one succeeds, \<open>MaxRetry = n\<close> is at least \<open>k\<close> and the cancellation signal does not
  fire, \<^verbatim>\<open>RetryIfNecessary\<close> returns nil and has called the operation exactly \<open>k + 1\<close> times.
\<close>

theorem RetryIfNecessary_succeeds_after_failures:
  assumes "\<forall>i<k. isRetryable (op_result operation s i)"
    and "op_result operation s k = ErrNil"
    and "int k \<le> n"
    and "\<forall>i<k. \<not> ctx (int i)"
  shows "result (RetryIfNecessary ctx operation (Some \<lparr>MaxRetry = n\<rparr>) s) = Returned ErrNil \<and>
         invocations (trace (RetryIfNecessary ctx operation (Some \<lparr>MaxRetry = n\<rparr>) s)) = k + 1 \<and>
         final_state (RetryIfNecessary ctx operation (Some \<lparr>MaxRetry = n\<rparr>) s) =
           op_state_after operation s (k + 1)"
proof -
  let ?ro = "\<lparr>MaxRetry = n\<rparr>"
  have "int k \<le> MaxRetry ?ro" using assms(3) by simp
  with assms(1) obtain tr' where
    run: "RetryIfNecessary ctx operation (Some ?ro) s =
            retry_loop ctx operation (Some ?ro) (int k)
              (op_result operation s k) (op_state_after operation s (Suc k)) tr'"
    and inv: "invocations tr' = Suc k"
    using RetryIfNecessary_run [of k operation s ?ro ctx] assms(4) by blast
  have "RetryIfNecessary ctx operation (Some ?ro) s =
      (Returned ErrNil, op_state_after operation s (Suc k), tr')"
    unfolding run assms(2) by (rule retry_loop_stop) simp
  with inv show ?thesis by (simp add: result_def trace_def final_state_def)
qed

text \<open>C2 at an operation that fails twice, with \<open>MaxRetry = 5\<close>.\<close>

theorem RetryIfNecessary_succeeds_after_failures_witness:
  "isRetryable (op_result op_flaky 0 0) \<and> isRetryable (op_result op_flaky 0 1) \<and>
   op_result op_flaky 0 2 = ErrNil \<and> int 2 \<le> 5 \<and>
   \<not> ctx_never (int 0) \<and> \<not> ctx_never (int 1) \<and>
   result (RetryIfNecessary ctx_never op_flaky (Some \<lparr>MaxRetry = 5\<rparr>) 0) = Returned ErrNil \<and>
   invocations (trace (RetryIfNecessary ctx_never op_flaky (Some \<lparr>MaxRetry = 5\<rparr>) 0)) = 3 \<and>
   final_state (RetryIfNecessary ctx_never op_flaky (Some \<lparr>MaxRetry = 5\<rparr>) 0) = 3"
proof -
  have s: "op_state_after op_flaky 0 (Suc (Suc (Suc 0))) = 3"
    "op_state_after op_flaky 0 (Suc (Suc 0)) = 2" "op_state_after op_flaky 0 (Suc 0) = 1"
    by (simp_all add: op_flaky_def)
  have h1: "\<forall>i<2. isRetryable (op_result op_flaky 0 i)"
    using s by (simp add: all_less_2 op_result_def op_flaky_def isRetryable_syscall_Errno
        ECONNREFUSED_def)
  have h2: "op_result op_flaky 0 2 = ErrNil"
    using s by (simp add: op_result_def op_flaky_def numeral_2_eq_2)
  have h3: "int 2 \<le> 5" by simp
  have h4: "\<forall>i<2. \<not> ctx_never (int i)" by (simp add: ctx_never_def)
  have c: "\<not> ctx_never (int 0)" "\<not> ctx_never (int 1)" by (simp_all add: ctx_never_def)
  from RetryIfNecessary_succeeds_after_failures [OF h1 h2 h3 h4] h1 h2 s c show ?thesis
    by (simp add: numeral_3_eq_3 all_less_2)
qed

text \<open>
  Claim C3. When the first call of the operation returns an error that is not retryable,
  \<^verbatim>\<open>RetryIfNecessary\<close> returns this very error, has called the operation exactly once, and
  has logged nothing and waited for nothing: the call is the only event of the run.
\<close>

theorem RetryIfNecessary_not_retryable_once:
  assumes "\<not> isRetryable (fst (operation s))"
  shows "RetryIfNecessary ctx operation retryOptions s =
    (Returned (fst (operation s)), snd (operation s), [Invoked])"
  using assms by (simp add: RetryIfNecessary_def retry_loop_stop)

text \<open>C3 at a wrapped \<^verbatim>\<open>unauthorized\<close> error.\<close>

theorem RetryIfNecessary_not_retryable_once_witness:
  "\<not> isRetryable (fst (op_unauthorized 0)) \<and>
   RetryIfNecessary ctx_never op_unauthorized (Some \<lparr>MaxRetry = 5\<rparr>) 0 =
     (Returned (withCause (errcode_Error ErrorCodeUnauthorized)), 1, [Invoked])"
  using RetryIfNecessary_not_retryable_once [of op_unauthorized 0 ctx_never "Some \<lparr>MaxRetry = 5\<rparr>"]
  by (simp add: op_unauthorized_def isRetryable_withCause isRetryable_errcode_Error)

text \<open>
  Claim C4. When the cancellation signal fires during the wait that follows the call
  number \<open>j\<close> (\<open>j = 0\<close>: the wait before the second attempt), \<^verbatim>\<open>RetryIfNecessary\<close> returns
  the error of that call, which is not a cancellation error, and the operation is not
  called again: \<open>j + 1\<close> calls in all, and receiving \<^verbatim>\<open>ctx.Done()\<close> is the last event.
\<close>

theorem RetryIfNecessary_cancelled_returns_last_error:
  assumes "\<forall>i\<le>j. isRetryable (op_result operation s i)"
    and "int j < n"
    and "\<forall>i<j. \<not> ctx (int i)"
    and "ctx (int j)"
  shows "result (RetryIfNecessary ctx operation (Some \<lparr>MaxRetry = n\<rparr>) s) =
           Returned (op_result operation s j) \<and>
         op_result operation s j \<noteq> Canceled \<and> op_result operation s j \<noteq> DeadlineExceeded \<and>
         invocations (trace (RetryIfNecessary ctx operation (Some \<lparr>MaxRetry = n\<rparr>) s)) = j + 1 \<and>
         final_state (RetryIfNecessary ctx operation (Some \<lparr>MaxRetry = n\<rparr>) s) =
           op_state_after operation s (j + 1) \<and>
         last (trace (RetryIfNecessary ctx operation (Some \<lparr>MaxRetry = n\<rparr>) s)) = ContextDone"
proof -
  let ?ro = "\<lparr>MaxRetry = n\<rparr>"
  let ?e = "op_result operation s j"
  have r: "isRetryable ?e" using assms(1) by simp
  have "\<forall>i<j. isRetryable (op_result operation s i)" using assms(1) by simp
  moreover have "int j \<le> MaxRetry ?ro" using assms(2) by simp
  ultimately obtain tr' where
    run: "RetryIfNecessary ctx operation (Some ?ro) s =
            retry_loop ctx operation (Some ?ro) (int j) ?e (op_state_after operation s (Suc j)) tr'"
    and inv: "invocations tr' = Suc j"
    using RetryIfNecessary_run [of j operation s ?ro ctx] assms(3) by blast
  have lt: "int j < MaxRetry ?ro" using assms(2) by simp
  have "RetryIfNecessary ctx operation (Some ?ro) s =
      (Returned ?e, op_state_after operation s (Suc j),
       tr' @ [Notice (delay (int j)) (int j + 1) (MaxRetry ?ro), ContextDone])"
    unfolding run using r lt assms(4) by (rule retry_loop_cancel)
  moreover have "?e \<noteq> Canceled" "?e \<noteq> DeadlineExceeded"
    using r isRetryable_flat by auto
  ultimately show ?thesis
    using inv by (simp add: result_def trace_def final_state_def counts_append counts_cancel)
qed

text \<open>C4 at a context that is done during the second wait, and at one done at the first.\<close>

theorem RetryIfNecessary_cancelled_returns_last_error_witness:
  "isRetryable (op_result op_reset () 0) \<and> isRetryable (op_result op_reset () 1) \<and>
   int 1 < 3 \<and> \<not> ctx_at 1 (int 0) \<and> ctx_at 1 (int 1) \<and>
   result (RetryIfNecessary (ctx_at 1) op_reset (Some \<lparr>MaxRetry = 3\<rparr>) ()) =
     Returned (syscall_Errno 0x68) \<and>
   invocations (trace (RetryIfNecessary (ctx_at 1) op_reset (Some \<lparr>MaxRetry = 3\<rparr>) ())) = 2 \<and>
   last (trace (RetryIfNecessary (ctx_at 1) op_reset (Some \<lparr>MaxRetry = 3\<rparr>) ())) = ContextDone \<and>
   int 0 < 3 \<and> ctx_done (int 0) \<and>
   result (RetryIfNecessary ctx_done op_reset (Some \<lparr>MaxRetry = 3\<rparr>) ()) =
     Returned (syscall_Errno 0x68) \<and>
   invocations (trace (RetryIfNecessary ctx_done op_reset (Some \<lparr>MaxRetry = 3\<rparr>) ())) = 1 \<and>
   last (trace (RetryIfNecessary ctx_done op_reset (Some \<lparr>MaxRetry = 3\<rparr>) ())) = ContextDone"
proof -
  have r: "isRetryable (op_result op_reset () i)" for i
    by (simp add: op_result_def op_reset_def isRetryable_syscall_Errno ECONNREFUSED_def)
  have a1: "\<forall>i\<le>1. isRetryable (op_result op_reset () i)" using r by simp
  have a2: "int 1 < 3" by simp
  have a3: "\<forall>i<1. \<not> ctx_at 1 (int i)" by (simp add: ctx_at_def)
  have a4: "ctx_at 1 (int 1)" by (simp add: ctx_at_def)
  have h1: "\<forall>i\<le>0. isRetryable (op_result op_reset () i)" using r by simp
  have h2: "int 0 < 3" by simp
  have h3: "\<forall>i<0. \<not> ctx_done (int i)" by simp
  have h4: "ctx_done (int 0)" by (simp add: ctx_done_def)
  have c: "\<not> ctx_at 1 (int 0)" by (simp add: ctx_at_def)
  from RetryIfNecessary_cancelled_returns_last_error [OF a1 a2 a3 a4]
    RetryIfNecessary_cancelled_returns_last_error [OF h1 h2 h3 h4] r a4 h4 c
  show ?thesis
    by (simp add: op_result_def op_reset_def)
qed

text \<open>
  Claim C9, amended. The notice is emitted once for every wait that is begun: the number
  of notices is the number of calls after the first one, plus one when the run ends because
  the cancellation signal fired during a wait (the notice of that wait is already out). At
  most one wait is cancelled; a run that ends in any other way emits nothing after its last
  call of the operation.
\<close>

theorem notices_per_wait:
  "notices (trace (RetryIfNecessary ctx operation retryOptions s)) + 1 =
     invocations (trace (RetryIfNecessary ctx operation retryOptions s)) +
     cancellations (trace (RetryIfNecessary ctx operation retryOptions s)) \<and>
   cancellations (trace (RetryIfNecessary ctx operation retryOptions s)) \<le> 1 \<and>
   last (trace (RetryIfNecessary ctx operation retryOptions s)) =
     (if cancellations (trace (RetryIfNecessary ctx operation retryOptions s)) = 0
      then Invoked else ContextDone)"
proof -
  obtain out s' tr' where
    r: "RetryIfNecessary ctx operation retryOptions s = (out, s', tr')"
    by (cases "RetryIfNecessary ctx operation retryOptions s") auto
  then have loop: "retry_loop ctx operation retryOptions 0 (fst (operation s))
      (snd (operation s)) [Invoked] = (out, s', tr')"
    by (simp add: RetryIfNecessary_def)
  from retry_loop_counts [OF loop] retry_loop_last [OF loop]
  show ?thesis unfolding r by (simp add: trace_def counts_first)
qed

text \<open>C9 at a run without cancellation.\<close>

theorem notices_per_wait_witness:
  "notices (trace (RetryIfNecessary ctx_never op_flaky (Some \<lparr>MaxRetry = 5\<rparr>) 0)) + 1 =
     invocations (trace (RetryIfNecessary ctx_never op_flaky (Some \<lparr>MaxRetry = 5\<rparr>) 0)) +
     cancellations (trace (RetryIfNecessary ctx_never op_flaky (Some \<lparr>MaxRetry = 5\<rparr>) 0))"
  using notices_per_wait [of ctx_never op_flaky "Some \<lparr>MaxRetry = 5\<rparr>" 0] by simp

text \<open>
  The claim C9 as stated fails on the cancellation path: one notice, and no call after the
  first.
\<close>

theorem notices_cancelled_counterexample:
  "notices (trace (RetryIfNecessary ctx_done op_reset (Some \<lparr>MaxRetry = 1\<rparr>) ())) \<noteq>
   invocations (trace (RetryIfNecessary ctx_done op_reset (Some \<lparr>MaxRetry = 1\<rparr>) ())) - 1"
  by (simp add: RetryIfNecessary_def retry_loop_cancel op_reset_def ctx_done_def
      isRetryable_syscall_Errno ECONNREFUSED_def trace_def invocations_def notices_def)

text \<open>
  Claim C10. With a negative \<open>MaxRetry\<close> the operation is called exactly once, nothing is
  logged or waited for, and the first result, nil or not, is returned as it is: the run is
  the run with \<open>MaxRetry = 0\<close>.
\<close>

theorem RetryIfNecessary_negative_MaxRetry:
  assumes "n < 0"
  shows "RetryIfNecessary ctx operation (Some \<lparr>MaxRetry = n\<rparr>) s =
      (Returned (fst (operation s)), snd (operation s), [Invoked]) \<and>
    RetryIfNecessary ctx operation (Some \<lparr>MaxRetry = n\<rparr>) s =
      RetryIfNecessary ctx operation (Some \<lparr>MaxRetry = 0\<rparr>) s"
  using assms by (simp add: RetryIfNecessary_def retry_loop_exhausted)

text \<open>C10 at \<open>MaxRetry = -3\<close>.\<close>

theorem RetryIfNecessary_negative_MaxRetry_witness:
  "(- 3 :: int) < 0 \<and>
   RetryIfNecessary ctx_never op_reset (Some \<lparr>MaxRetry = - 3\<rparr>) () =
     (Returned (syscall_Errno 0x68), (), [Invoked]) \<and>
   RetryIfNecessary ctx_never op_reset (Some \<lparr>MaxRetry = - 3\<rparr>) () =
     RetryIfNecessary ctx_never op_reset (Some \<lparr>MaxRetry = 0\<rparr>) ()"
  using RetryIfNecessary_negative_MaxRetry [of "- 3" ctx_never op_reset "()"]
  by (auto simp: op_reset_def)

end
